theory Spec2Isabelle
  imports Complex_Main "HOL-Library.AList" "HOL-Library.Char_ord" "HOL-Library.List_Lexorder"
begin

section \<open>Data model of \<open>stockAnalyzis.ts\<close>\<close>

text \<open>
  The service \<open>stockAnalyzisBulk\<close> reads every order (one monthly snapshot each) and
  returns one \<open>Product\<close> record per product id.  JavaScript numbers are modelled
  exactly: stock quantities and sales are \<open>int\<close> (whole numbers, which a double holds
  exactly below \<open>2^53\<close>), the month counter is \<open>nat\<close>, the two quotients are \<open>rat\<close>; the
  rounding of doubles is not modelled.  Strings are \<open>string\<close>; the default
  \<open>Array.prototype.sort\<close> order (by code unit) is the lexicographic order on \<open>char list\<close>.
  The call \<open>console.error\<close> of the \<open>catch\<close> clause has no effect on the result and is
  left out.  The query returns documents; the rows of a document are objects, \<open>null\<close> or
  \<open>undefined\<close>.
\<close>

datatype js_error = Error string | TypeError string

text \<open>A row of an order: the three fields the service reads from it.\<close>

record raw_row =
  productId :: string
  productName :: string
  stockStatus :: int

text \<open>\<open>interface Product\<close>: the row fields followed by the six computed ones.\<close>

record Product = raw_row +
  leftOver :: int
  availability :: string
  average :: rat
  totalSales :: int
  months :: nat
  enoughForMonths :: rat

text \<open>
  An order document.  \<open>rows = None\<close> stands for a value that is not an array; an element
  \<open>None\<close> of the array stands for \<open>null\<close> or \<open>undefined\<close> in the place of a row.
\<close>

record Order =
  name :: string
  rows :: "raw_row option list option"

subsection \<open>Plain objects used as dictionaries\<close>

text \<open>
  An object literal \<open>{}\<close> is modelled by its own properties in creation order.
  \<open>Object.keys\<close> and \<open>Object.values\<close> list the array-index keys first, in ascending
  numeric order, and then the other keys in creation order.
\<close>

type_synonym 'v js_object = "(string \<times> 'v) list"

definition isDigit :: "char \<Rightarrow> bool" where
  "isDigit c = (CHR ''0'' \<le> c \<and> c \<le> CHR ''9'')"

definition digitsValue :: "string \<Rightarrow> int" where
  "digitsValue s = foldl (\<lambda>a c. 10 * a + (of_char c - 48)) 0 s"

definition isArrayIndex :: "string \<Rightarrow> bool" where
  "isArrayIndex s =
     (case s of
        [] \<Rightarrow> False
      | c # cs \<Rightarrow>
          list_all isDigit s \<and> (if c = CHR ''0'' then cs = [] else True) \<and>
          digitsValue s < 4294967295)"

definition js_entries :: "'v js_object \<Rightarrow> (string \<times> 'v) list" where
  "js_entries obj =
     sort_key (\<lambda>e. digitsValue (fst e)) (filter (\<lambda>e. isArrayIndex (fst e)) obj) @
     filter (\<lambda>e. \<not> isArrayIndex (fst e)) obj"

definition js_keys :: "'v js_object \<Rightarrow> string list" where
  "js_keys obj = map fst (js_entries obj)"

definition js_values :: "'v js_object \<Rightarrow> 'v list" where
  "js_values obj = map snd (js_entries obj)"

definition js_get :: "'v js_object \<Rightarrow> string \<Rightarrow> 'v option" where
  "js_get obj k = map_of obj k"

text \<open>
  The property names every object literal inherits from \<open>Object.prototype\<close>.  Each of
  them reads as a function (or, for \<open>__proto__\<close>, as the prototype object), which is
  truthy, although it is no own property.
\<close>

definition objectPrototypeKeys :: "string list" where
  "objectPrototypeKeys =
     [''constructor'', ''__defineGetter__'', ''__defineSetter__'', ''hasOwnProperty'',
      ''__lookupGetter__'', ''__lookupSetter__'', ''isPrototypeOf'',
      ''propertyIsEnumerable'', ''toString'', ''valueOf'', ''__proto__'',
      ''toLocaleString'']"

text \<open>
  \<open>obj[k] = v\<close>: an own property keeps its place, a new one is appended; assigning an
  object to \<open>__proto__\<close> replaces the prototype and creates no own property.
\<close>

definition js_set :: "'v js_object \<Rightarrow> string \<Rightarrow> 'v \<Rightarrow> 'v js_object" where
  "js_set obj k v = (if k = ''__proto__'' then obj else AList.update k v obj)"

section \<open>Step 1: consolidation of one month\<close>

definition newRecord :: "raw_row \<Rightarrow> Product" where
  "newRecord product =
     \<lparr>productId = productId product, productName = productName product,
      stockStatus = stockStatus product, leftOver = 0, availability = ''Unknown'',
      average = 0, totalSales = 0, months = 0, enoughForMonths = 0\<rparr>"

text \<open>
  The body of the inner loop (lines 32-49).  The test \<open>if (consolidatedStocks[productId])\<close>
  succeeds for an own record and also for an inherited property of \<open>Object.prototype\<close>;
  in the second case the addition goes to the inherited value and no record is created.
\<close>

definition consolidateRow :: "Product js_object \<Rightarrow> raw_row \<Rightarrow> Product js_object" where
  "consolidateRow consolidatedStocks product =
     (case js_get consolidatedStocks (productId product) of
        Some existing \<Rightarrow>
          AList.update (productId product)
            (existing\<lparr>stockStatus := stockStatus existing + stockStatus product\<rparr>)
            consolidatedStocks
      | None \<Rightarrow>
          if productId product \<in> set objectPrototypeKeys then consolidatedStocks
          else consolidatedStocks @ [(productId product, newRecord product)])"

text \<open>
  The inner loop (lines 32-49).  Line 33 reads \<open>product.productId\<close>, which throws when the
  row is \<open>null\<close> or \<open>undefined\<close>.
\<close>

fun consolidateRows ::
  "Product js_object \<Rightarrow> raw_row option list \<Rightarrow> js_error + Product js_object" where
  "consolidateRows consolidatedStocks [] = Inr consolidatedStocks"
| "consolidateRows consolidatedStocks (None # rs) =
     Inl (TypeError ''cannot read property productId of null'')"
| "consolidateRows consolidatedStocks (Some product # rs) =
     consolidateRows (consolidateRow consolidatedStocks product) rs"

text \<open>The body of the outer loop for one order: \<open>Object.values(consolidatedStocks)\<close>.\<close>

definition consolidate :: "raw_row option list \<Rightarrow> js_error + Product list" where
  "consolidate rs =
     (case consolidateRows [] rs of
        Inl e \<Rightarrow> Inl e
      | Inr consolidatedStocks \<Rightarrow> Inr (js_values consolidatedStocks))"

definition orderRows :: "Order \<Rightarrow> raw_row option list" where
  "orderRows ord = (case rows ord of Some rs \<Rightarrow> rs | None \<Rightarrow> [])"

text \<open>The outer loop (lines 27-53); an error of the inner loop ends it.\<close>

fun consolidateOrders ::
  "Product list js_object \<Rightarrow> Order list \<Rightarrow> js_error + Product list js_object" where
  "consolidateOrders data [] = Inr data"
| "consolidateOrders data (ord # orders) =
     (case consolidate (orderRows ord) of
        Inl e \<Rightarrow> Inl e
      | Inr monthData \<Rightarrow> consolidateOrders (js_set data (name ord) monthData) orders)"

definition monthlyConsolidatedData :: "Order list \<Rightarrow> js_error + Product list js_object" where
  "monthlyConsolidatedData orders = consolidateOrders [] orders"

section \<open>Step 2: statistics of each product\<close>

text \<open>\<open>Set.add\<close>: a set keeps its elements in insertion order.\<close>

definition setAdd :: "string list \<Rightarrow> string \<Rightarrow> string list" where
  "setAdd s x = (if x \<in> set s then s else s @ [x])"

definition productIds :: "Product list js_object \<Rightarrow> string list" where
  "productIds data =
     foldl (\<lambda>s monthData. foldl (\<lambda>s' product. setAdd s' (productId product)) s monthData)
       [] (js_values data)"

definition monthKeys :: "Product list js_object \<Rightarrow> string list" where
  "monthKeys data = sort (js_keys data)"

text \<open>
  \<open>monthlyConsolidatedData[monthKey].find(p => p.productId === productId)\<close>.  The keys
  come from \<open>Object.keys\<close>; a month that is missing reads as \<open>undefined\<close>, and calling
  \<open>find\<close> on it throws.
\<close>

definition monthFind ::
  "Product list js_object \<Rightarrow> string \<Rightarrow> string \<Rightarrow> js_error + Product option" where
  "monthFind data monthKey pid =
     (case js_get data monthKey of
        None \<Rightarrow> Inl (TypeError ''cannot read property find of undefined'')
      | Some monthData \<Rightarrow> Inr (find (\<lambda>p. productId p = pid) monthData))"

text \<open>The first loop over the months (lines 75-83): the maximum stock, starting at 0.\<close>

fun findInitialStock ::
  "Product list js_object \<Rightarrow> string \<Rightarrow> string list \<Rightarrow> int \<Rightarrow> js_error + int" where
  "findInitialStock data pid [] initialStock = Inr initialStock"
| "findInitialStock data pid (monthKey # ks) initialStock =
     (case monthFind data monthKey pid of
        Inl e \<Rightarrow> Inl e
      | Inr None \<Rightarrow> findInitialStock data pid ks initialStock
      | Inr (Some product) \<Rightarrow>
          findInitialStock data pid ks
            (if stockStatus product > initialStock then stockStatus product
             else initialStock))"

text \<open>The variables the second loop (lines 86-114) updates.\<close>

record walk =
  varTotalSales :: int
  varLeftOver :: int
  validMonths :: nat
  previousStock :: int

text \<open>Lines 109-112: the leftover is taken in the iteration of the last month only.\<close>

definition setLeftOver :: "nat \<Rightarrow> nat \<Rightarrow> int \<Rightarrow> walk \<Rightarrow> walk" where
  "setLeftOver n i currentStock w =
     (if i = n - 1 then w\<lparr>varLeftOver := currentStock\<rparr> else w)"

text \<open>
  One iteration for a month in which the product is present (lines 90-113);
  \<open>currentStock\<close> is \<open>product.stockStatus\<close> and \<open>n\<close> is \<open>monthKeys.length\<close>.  In the
  branch \<open>sales <= 0\<close> the \<open>continue\<close> leaves the iteration before line 110.
\<close>

definition walkStep :: "int \<Rightarrow> nat \<Rightarrow> nat \<Rightarrow> int \<Rightarrow> walk \<Rightarrow> walk" where
  "walkStep initialStock n i currentStock w =
     (if i = 0 then setLeftOver n i currentStock (w\<lparr>previousStock := initialStock\<rparr>)
      else
        (let sales = previousStock w - currentStock in
           if sales > 0 then
             setLeftOver n i currentStock
               (w\<lparr>varTotalSales := varTotalSales w + sales,
                  validMonths := validMonths w + 1,
                  previousStock := currentStock\<rparr>)
           else w\<lparr>previousStock := currentStock\<rparr>))"

function salesWalk ::
  "Product list js_object \<Rightarrow> string \<Rightarrow> int \<Rightarrow> string list \<Rightarrow> nat \<Rightarrow> walk \<Rightarrow> js_error + walk"
  where
  "salesWalk data pid initialStock ks i w =
     (if i < length ks then
        (case monthFind data (ks ! i) pid of
           Inl e \<Rightarrow> Inl e
         | Inr None \<Rightarrow> salesWalk data pid initialStock ks (Suc i) w
         | Inr (Some product) \<Rightarrow>
             salesWalk data pid initialStock ks (Suc i)
               (walkStep initialStock (length ks) i (stockStatus product) w))
      else Inr w)"
  by pat_completeness auto
termination
  by (relation "measure (\<lambda>(data, pid, initialStock, ks, i, w). length ks - i)") auto

declare salesWalk.simps [simp del]

text \<open>
  Arithmetic on doubles.  A JavaScript number is given by its exact value.  The result of
  a division is the double nearest to the exact quotient: 53 significant bits, a tie
  going to the even significand.  Whole numbers are kept as they are, as the stock
  quantities are (a double holds them exactly below \<open>2^53\<close>), and the exponent range of
  doubles is not limited.
\<close>

function floorLog2 :: "int \<Rightarrow> int" where
  "floorLog2 n = (if n \<le> 1 then 0 else 1 + floorLog2 (n div 2))"
  by pat_completeness auto
termination
  by (relation "measure nat") auto

declare floorLog2.simps [simp del]

definition pow2 :: "int \<Rightarrow> rat" where
  "pow2 k = (if k \<ge> 0 then 2 ^ nat k else 1 / 2 ^ nat (- k))"

definition roundHalfEven :: "rat \<Rightarrow> int" where
  "roundHalfEven y =
     (let f = \<lfloor>y\<rfloor>; r = y - of_int f
      in if r < 1 / 2 then f else if r > 1 / 2 then f + 1 else if even f then f else f + 1)"

definition toDouble :: "rat \<Rightarrow> rat" where
  "toDouble x =
     (if of_int \<lfloor>x\<rfloor> = x then x
      else
        (let a = \<bar>x\<bar>;
             k = floorLog2 (fst (quotient_of a)) - floorLog2 (snd (quotient_of a));
             e = (if pow2 k \<le> a then k else k - 1);
             m = roundHalfEven (a * pow2 (52 - e))
         in (if x < 0 then - 1 else 1) * (of_int m / pow2 (52 - e))))"

text \<open>
  \<open>parseFloat(x.toFixed(2))\<close> for a double \<open>x\<close>: \<open>toFixed\<close> takes the multiple of 1/100
  nearest to the exact value of \<open>x\<close>, the larger one on a tie, computed on the absolute
  value; from \<open>10^21\<close> on it prints the number itself.  The result is the decimal that
  \<open>parseFloat\<close> reads; as an operand it stands for the double nearest to it.
\<close>

definition toFixed2 :: "rat \<Rightarrow> rat" where
  "toFixed2 x =
     (if \<bar>x\<bar> \<ge> 10 ^ 21 then x
      else if x < 0 then - (of_int \<lfloor>- x * 100 + 1 / 2\<rfloor> / 100)
      else of_int \<lfloor>x * 100 + 1 / 2\<rfloor> / 100)"

text \<open>Lines 128-131: the name is looked up in the first month only.\<close>

definition firstMonthName ::
  "Product list js_object \<Rightarrow> string list \<Rightarrow> string \<Rightarrow> js_error + string" where
  "firstMonthName data ks pid =
     (case ks of
        [] \<Rightarrow> Inl (TypeError ''cannot read property find of undefined'')
      | k # _ \<Rightarrow>
          (case monthFind data k pid of
             Inl e \<Rightarrow> Inl e
           | Inr None \<Rightarrow> Inr ''''
           | Inr (Some product) \<Rightarrow> Inr (productName product)))"

text \<open>The callback of \<open>productIds.forEach\<close> (lines 65-144), returning the record it pushes.\<close>

definition analyzeProduct :: "Product list js_object \<Rightarrow> string \<Rightarrow> js_error + Product" where
  "analyzeProduct data pid =
     (let ks = monthKeys data in
      case findInitialStock data pid ks 0 of
        Inl e \<Rightarrow> Inl e
      | Inr initialStock \<Rightarrow>
          (case salesWalk data pid initialStock ks 0
                  \<lparr>varTotalSales = 0, varLeftOver = 0, validMonths = 0, previousStock = 0\<rparr> of
             Inl e \<Rightarrow> Inl e
           | Inr w \<Rightarrow>
               (let avail = (if varLeftOver w > 0 then ''Available'' else ''Out of Stock'');
                    avg = (if validMonths w > 0
                           then toFixed2
                                  (toDouble (of_int (varTotalSales w) / of_nat (validMonths w)))
                           else 0);
                    enough = (if avg > 0
                              then toFixed2 (toDouble (of_int (varLeftOver w) / toDouble avg))
                              else 0)
                in case firstMonthName data ks pid of
                     Inl e \<Rightarrow> Inl e
                   | Inr pname \<Rightarrow>
                       Inr \<lparr>productId = pid, productName = pname,
                            stockStatus = initialStock, leftOver = varLeftOver w,
                            availability = avail, average = avg,
                            totalSales = varTotalSales w, months = validMonths w,
                            enoughForMonths = enough\<rparr>)))"

fun processProducts ::
  "Product list js_object \<Rightarrow> string list \<Rightarrow> Product list \<Rightarrow> js_error + Product list" where
  "processProducts data [] finalStockStatus = Inr finalStockStatus"
| "processProducts data (pid # pids) finalStockStatus =
     (case analyzeProduct data pid of
        Inl e \<Rightarrow> Inl e
      | Inr p \<Rightarrow> processProducts data pids (finalStockStatus @ [p]))"

text \<open>Lines 23-146: everything after the early return.\<close>

definition analysisPipeline :: "Order list \<Rightarrow> js_error + Product list" where
  "analysisPipeline orders =
     (case monthlyConsolidatedData orders of
        Inl e \<Rightarrow> Inl e
      | Inr data \<Rightarrow> processProducts data (productIds data) [])"

text \<open>
  The body of the \<open>try\<close> block.  The argument is the outcome of the awaited query
  \<open>Order.find().select(...)\<close>: a rejection, \<open>null\<close>, or the list of orders.
\<close>

definition tryBlock :: "js_error + Order list option \<Rightarrow> js_error + Product list" where
  "tryBlock fetched =
     (case fetched of
        Inl e \<Rightarrow> Inl e
      | Inr None \<Rightarrow> Inr []
      | Inr (Some orders) \<Rightarrow> if length orders = 0 then Inr [] else analysisPipeline orders)"

text \<open>The \<open>catch\<close> clause replaces whatever was thrown by one fixed error.\<close>

definition stockAnalyzisBulk :: "js_error + Order list option \<Rightarrow> js_error + Product list" where
  "stockAnalyzisBulk fetched =
     (case tryBlock fetched of
        Inl e \<Rightarrow> Inl (Error ''Error While searching data'')
      | Inr finalStockStatus \<Rightarrow> Inr finalStockStatus)"

text \<open>The record the service returns for one product id, if it returns one.\<close>

definition outputFor :: "Order list \<Rightarrow> string \<Rightarrow> Product option" where
  "outputFor orders pid =
     (case stockAnalyzisBulk (Inr (Some orders)) of
        Inl e \<Rightarrow> None
      | Inr finalStockStatus \<Rightarrow> find (\<lambda>p. productId p = pid) finalStockStatus)"

section \<open>The stock series of a product\<close>

text \<open>
  The consolidated stock of a product in one month, \<open>None\<close> when the month has no
  record of it, and the series of these values over the sorted month keys.
\<close>

definition monthStock :: "Product list js_object \<Rightarrow> string \<Rightarrow> string \<Rightarrow> int option" where
  "monthStock data pid monthKey =
     (case js_get data monthKey of
        None \<Rightarrow> None
      | Some monthData \<Rightarrow> map_option stockStatus (find (\<lambda>p. productId p = pid) monthData))"

definition stockSeries :: "Product list js_object \<Rightarrow> string \<Rightarrow> int option list" where
  "stockSeries data pid = map (monthStock data pid) (monthKeys data)"

text \<open>The series of a product over the months consolidated from the orders.\<close>

definition consolidatedSeries :: "Order list \<Rightarrow> string \<Rightarrow> js_error + int option list" where
  "consolidatedSeries orders pid =
     (case monthlyConsolidatedData orders of
        Inl e \<Rightarrow> Inl e
      | Inr data \<Rightarrow> Inr (stockSeries data pid))"

text \<open>The object the inner loop builds from rows that are all objects, and its values.\<close>

definition stocksOfRows :: "raw_row list \<Rightarrow> Product js_object" where
  "stocksOfRows rs = foldl consolidateRow [] rs"

definition recordsOfRows :: "raw_row list \<Rightarrow> Product list" where
  "recordsOfRows rs = js_values (stocksOfRows rs)"

text \<open>The two loops of the callback, read as functions of the series alone.\<close>

fun peakOver :: "int option list \<Rightarrow> int \<Rightarrow> int" where
  "peakOver [] m = m"
| "peakOver (None # xs) m = peakOver xs m"
| "peakOver (Some s # xs) m = peakOver xs (if s > m then s else m)"

fun walkOver :: "int \<Rightarrow> nat \<Rightarrow> nat \<Rightarrow> int option list \<Rightarrow> walk \<Rightarrow> walk" where
  "walkOver initialStock n i [] w = w"
| "walkOver initialStock n i (None # xs) w = walkOver initialStock n (Suc i) xs w"
| "walkOver initialStock n i (Some s # xs) w =
     walkOver initialStock n (Suc i) xs (walkStep initialStock n i s w)"

definition walk0 :: walk where
  "walk0 = \<lparr>varTotalSales = 0, varLeftOver = 0, validMonths = 0, previousStock = 0\<rparr>"

text \<open>The state of the second loop when it ends, for the series of the product.\<close>

definition finalWalk :: "Product list js_object \<Rightarrow> string \<Rightarrow> walk" where
  "finalWalk data pid =
     walkOver (peakOver (stockSeries data pid) 0) (length (stockSeries data pid)) 0
       (stockSeries data pid) walk0"

section \<open>The sales walk as the specification words it\<close>

text \<open>
  The walk of the specification from index 1 on: \<open>prev\<close> is the running previous stock and
  the pair holds total sales and the number of valid months.  An absent month changes
  nothing; a present month with positive \<open>prev - s\<close> is counted; every present month
  becomes the new previous stock.
\<close>

fun specWalkFrom :: "int \<Rightarrow> int option list \<Rightarrow> int \<times> nat \<Rightarrow> int \<times> nat" where
  "specWalkFrom prev [] acc = acc"
| "specWalkFrom prev (None # ms) acc = specWalkFrom prev ms acc"
| "specWalkFrom prev (Some s # ms) (ts, vm) =
     (if prev - s > 0 then specWalkFrom s ms (ts + (prev - s), vm + 1)
      else specWalkFrom s ms (ts, vm))"

text \<open>At index 0 the specification sets the previous stock to the peak, whatever the month holds.\<close>

definition specSalesWalk :: "int \<Rightarrow> int option list \<Rightarrow> int \<times> nat" where
  "specSalesWalk peak series =
     (case series of [] \<Rightarrow> (0, 0) | m0 # ms \<Rightarrow> specWalkFrom peak ms (0, 0))"

section \<open>Facts about the object model\<close>

lemma set_js_entries: "set (js_entries obj) = set obj"
  by (auto simp: js_entries_def)

lemma length_js_entries: "length (js_entries obj) = length obj"
  by (simp add: js_entries_def sum_length_filter_compl)

lemma distinct_js_entries:
  assumes "distinct (map fst obj)"
  shows "distinct (map fst (js_entries obj))"
proof -
  from assms have d: "distinct obj" and i: "inj_on fst (set obj)"
    by (simp_all add: distinct_map)
  have "distinct (js_entries obj)"
    using d by (auto simp: js_entries_def)
  moreover have "inj_on fst (set (js_entries obj))"
    using i by (simp add: set_js_entries)
  ultimately show ?thesis by (simp add: distinct_map)
qed

lemma set_js_keys: "set (js_keys obj) = fst ` set obj"
  by (simp add: js_keys_def set_js_entries)

lemma set_js_values: "set (js_values obj) = snd ` set obj"
  by (simp add: js_values_def set_js_entries)

lemma set_monthKeys: "set (monthKeys data) = fst ` set data"
  by (simp add: monthKeys_def set_js_keys)

lemma sorted_monthKeys: "sorted (monthKeys data)"
  by (simp add: monthKeys_def)

lemma length_monthKeys: "length (monthKeys data) = length data"
  by (simp add: monthKeys_def js_keys_def length_js_entries)

lemma distinct_monthKeys: "distinct (map fst data) \<Longrightarrow> distinct (monthKeys data)"
  by (simp add: monthKeys_def js_keys_def distinct_js_entries)

lemma js_get_monthKeys:
  "k \<in> set (monthKeys data) \<Longrightarrow> \<exists>monthData. js_get data k = Some monthData"
  by (auto simp: set_monthKeys js_get_def weak_map_of_SomeI map_of_eq_None_iff
      intro: not_None_eq[THEN iffD1])

section \<open>The loops compute on the stock series\<close>

lemma monthFind_monthStock:
  "js_get data k = Some md \<Longrightarrow>
   monthFind data k pid = Inr (find (\<lambda>p. productId p = pid) md) \<and>
   monthStock data pid k = map_option stockStatus (find (\<lambda>p. productId p = pid) md)"
  by (simp add: monthFind_def monthStock_def)

lemma findInitialStock_peakOver:
  "\<forall>k\<in>set ks. js_get data k \<noteq> None \<Longrightarrow>
   findInitialStock data pid ks m = Inr (peakOver (map (monthStock data pid) ks) m)"
proof (induction ks arbitrary: m)
  case Nil
  show ?case by simp
next
  case (Cons k ks)
  then obtain md where md: "js_get data k = Some md" by auto
  show ?case
  proof (cases "find (\<lambda>p. productId p = pid) md")
    case None
    with md Cons show ?thesis by (simp add: monthFind_def monthStock_def)
  next
    case (Some p)
    with md Cons show ?thesis by (simp add: monthFind_def monthStock_def)
  qed
qed

lemma salesWalk_walkOver:
  "\<forall>k\<in>set ks. js_get data k \<noteq> None \<Longrightarrow>
   salesWalk data pid init ks i w =
     Inr (walkOver init (length ks) i (drop i (map (monthStock data pid) ks)) w)"
proof (induction data pid init ks i w rule: salesWalk.induct)
  case (1 data pid init ks i w)
  show ?case
  proof (cases "i < length ks")
    case False
    then show ?thesis by (simp add: salesWalk.simps)
  next
    case True
    then have "ks ! i \<in> set ks" by simp
    with "1.prems" obtain md where md: "js_get data (ks ! i) = Some md" by auto
    from True have dr: "drop i (map (monthStock data pid) ks) =
        monthStock data pid (ks ! i) # drop (Suc i) (map (monthStock data pid) ks)"
      by (metis Cons_nth_drop_Suc length_map nth_map)
    show ?thesis
    proof (cases "find (\<lambda>p. productId p = pid) md")
      case None
      then have mf: "monthFind data (ks ! i) pid = Inr None"
        and ms: "monthStock data pid (ks ! i) = None"
        using md by (simp_all add: monthFind_def monthStock_def)
      from "1.IH"(1)[OF True mf refl "1.prems"] show ?thesis
        using True mf ms dr by (simp add: salesWalk.simps[of data pid init ks i w])
    next
      case (Some p)
      then have mf: "monthFind data (ks ! i) pid = Inr (Some p)"
        and ms: "monthStock data pid (ks ! i) = Some (stockStatus p)"
        using md by (simp_all add: monthFind_def monthStock_def)
      from "1.IH"(2)[OF True mf refl "1.prems"] show ?thesis
        using True mf ms dr by (simp add: salesWalk.simps[of data pid init ks i w])
    qed
  qed
qed

section \<open>The service never throws after the query\<close>

lemma firstMonthName_ok:
  "data \<noteq> [] \<Longrightarrow> \<exists>pname. firstMonthName data (monthKeys data) pid = Inr pname"
proof -
  assume "data \<noteq> []"
  then have "monthKeys data \<noteq> []"
    using length_monthKeys[of data] by auto
  then obtain k ks where ks: "monthKeys data = k # ks" by (cases "monthKeys data") auto
  then have "k \<in> set (monthKeys data)" by simp
  then obtain md where "js_get data k = Some md" using js_get_monthKeys by blast
  then show ?thesis
    by (cases "find (\<lambda>p. productId p = pid) md")
       (simp_all add: firstMonthName_def ks monthFind_def)
qed

lemma analyzeProduct_fields:
  assumes "data \<noteq> []"
  shows "\<exists>p. analyzeProduct data pid = Inr p \<and> productId p = pid \<and>
     stockStatus p = peakOver (stockSeries data pid) 0 \<and>
     leftOver p = varLeftOver (finalWalk data pid) \<and>
     totalSales p = varTotalSales (finalWalk data pid) \<and>
     months p = validMonths (finalWalk data pid) \<and>
     availability p = (if leftOver p > 0 then ''Available'' else ''Out of Stock'') \<and>
     average p =
       (if months p > 0 then toFixed2 (toDouble (of_int (totalSales p) / of_nat (months p)))
        else 0) \<and>
     enoughForMonths p =
       (if average p > 0 then toFixed2 (toDouble (of_int (leftOver p) / toDouble (average p)))
        else 0)"
proof -
  have own: "\<forall>k\<in>set (monthKeys data). js_get data k \<noteq> None"
    using js_get_monthKeys by fastforce
  obtain pname where pn: "firstMonthName data (monthKeys data) pid = Inr pname"
    using firstMonthName_ok[OF assms] by blast
  have fi: "findInitialStock data pid (monthKeys data) 0 = Inr (peakOver (stockSeries data pid) 0)"
    using findInitialStock_peakOver[OF own] by (simp add: stockSeries_def)
  have sw: "salesWalk data pid (peakOver (stockSeries data pid) 0) (monthKeys data) 0
        \<lparr>varTotalSales = 0, varLeftOver = 0, validMonths = 0, previousStock = 0\<rparr> =
      Inr (finalWalk data pid)"
    using salesWalk_walkOver[OF own]
    by (simp add: stockSeries_def finalWalk_def walk0_def)
  show ?thesis
    by (simp add: analyzeProduct_def fi sw pn Let_def)
qed

lemma set_foldl_setAdd:
  "set (foldl (\<lambda>s' x. setAdd s' (f x)) s xs) = set s \<union> f ` set xs"
  by (induction xs arbitrary: s) (auto simp: setAdd_def)

lemma distinct_foldl_setAdd:
  "distinct s \<Longrightarrow> distinct (foldl (\<lambda>s' x. setAdd s' (f x)) s xs)"
  by (induction xs arbitrary: s) (auto simp: setAdd_def)

lemma set_foldl_months:
  "set (foldl (\<lambda>s monthData. foldl (\<lambda>s' product. setAdd s' (productId product)) s monthData) s mds) =
   set s \<union> (\<Union>md\<in>set mds. productId ` set md)"
  by (induction mds arbitrary: s) (auto simp: set_foldl_setAdd)

lemma distinct_foldl_months:
  "distinct s \<Longrightarrow>
   distinct (foldl (\<lambda>s monthData. foldl (\<lambda>s' product. setAdd s' (productId product)) s monthData) s mds)"
  by (induction mds arbitrary: s) (auto simp: distinct_foldl_setAdd)

lemma set_productIds: "set (productIds data) = (\<Union>md\<in>snd ` set data. productId ` set md)"
  by (simp add: productIds_def set_foldl_months set_js_values)

lemma distinct_productIds: "distinct (productIds data)"
  by (simp add: productIds_def distinct_foldl_months)

lemma processProducts_ok:
  "\<forall>pid\<in>set pids. \<exists>p. analyzeProduct data pid = Inr p \<Longrightarrow>
   processProducts data pids acc = Inr (acc @ map (\<lambda>pid. projr (analyzeProduct data pid)) pids)"
proof (induction pids arbitrary: acc)
  case Nil
  show ?case by simp
next
  case (Cons pid pids)
  then obtain p where "analyzeProduct data pid = Inr p" by auto
  with Cons show ?case by simp
qed

lemma analysisPipeline_ok:
  assumes "monthlyConsolidatedData orders = Inr data"
  shows "analysisPipeline orders =
     Inr (map (\<lambda>pid. projr (analyzeProduct data pid)) (productIds data))"
proof -
  have "\<forall>pid\<in>set (productIds data). \<exists>p. analyzeProduct data pid = Inr p"
  proof
    fix pid assume "pid \<in> set (productIds data)"
    then have "data \<noteq> []" by (auto simp: set_productIds)
    from analyzeProduct_fields[OF this] show "\<exists>p. analyzeProduct data pid = Inr p" by blast
  qed
  from processProducts_ok[OF this, of "[]"] assms show ?thesis
    by (simp add: analysisPipeline_def)
qed

lemma find_map_key:
  "\<forall>x\<in>set xs. key (f x) = x \<Longrightarrow>
   find (\<lambda>p. key p = k) (map f xs) = (if k \<in> set xs then Some (f k) else None)"
  by (induction xs) auto

lemma productIds_Nil: "productIds [] = []"
  by (simp add: productIds_def js_values_def js_entries_def)

lemma stockAnalyzisBulk_orders:
  assumes "monthlyConsolidatedData orders = Inr data"
  shows "stockAnalyzisBulk (Inr (Some orders)) =
     Inr (map (\<lambda>pid. projr (analyzeProduct data pid)) (productIds data))"
proof (cases "orders = []")
  case True
  with assms have "data = []" by (simp add: monthlyConsolidatedData_def)
  with True show ?thesis
    by (simp add: stockAnalyzisBulk_def tryBlock_def productIds_Nil)
next
  case False
  then show ?thesis
    by (simp add: stockAnalyzisBulk_def tryBlock_def analysisPipeline_ok[OF assms])
qed

lemma tryBlock_failed:
  assumes "monthlyConsolidatedData orders = Inl e"
  shows "tryBlock (Inr (Some orders)) = Inl e"
proof -
  from assms have "orders \<noteq> []" by (auto simp: monthlyConsolidatedData_def)
  with assms show ?thesis by (simp add: tryBlock_def analysisPipeline_def)
qed

lemma stockAnalyzisBulk_failed:
  assumes "monthlyConsolidatedData orders = Inl e"
  shows "stockAnalyzisBulk (Inr (Some orders)) = Inl (Error ''Error While searching data'')"
  by (simp add: stockAnalyzisBulk_def tryBlock_failed[OF assms])

lemma outputFor_eq:
  assumes "monthlyConsolidatedData orders = Inr data"
  shows "outputFor orders pid =
     (if pid \<in> set (productIds data) then Some (projr (analyzeProduct data pid)) else None)"
proof -
  have "\<forall>x\<in>set (productIds data). productId (projr (analyzeProduct data x)) = x"
  proof
    fix x assume "x \<in> set (productIds data)"
    then have "data \<noteq> []" by (auto simp: set_productIds)
    from analyzeProduct_fields[OF this, of x] show "productId (projr (analyzeProduct data x)) = x"
      by auto
  qed
  then have "find (\<lambda>p. productId p = pid)
      (map (\<lambda>x. projr (analyzeProduct data x)) (productIds data)) =
      (if pid \<in> set (productIds data) then Some (projr (analyzeProduct data pid)) else None)"
    by (rule find_map_key)
  then show ?thesis
    by (simp add: outputFor_def stockAnalyzisBulk_orders[OF assms])
qed

lemma outputFor_failed:
  assumes "monthlyConsolidatedData orders = Inl e"
  shows "outputFor orders pid = None"
  by (simp add: outputFor_def stockAnalyzisBulk_failed[OF assms])

section \<open>Properties of the two loops\<close>

lemma setLeftOver_fields [simp]:
  "varTotalSales (setLeftOver n i s w) = varTotalSales w"
  "validMonths (setLeftOver n i s w) = validMonths w"
  "previousStock (setLeftOver n i s w) = previousStock w"
  by (simp_all add: setLeftOver_def)

lemma walkStep_later:
  "i \<noteq> 0 \<Longrightarrow> previousStock (walkStep init n i s w) = s"
  "i \<noteq> 0 \<Longrightarrow> varTotalSales (walkStep init n i s w) =
     (if previousStock w - s > 0 then varTotalSales w + (previousStock w - s) else varTotalSales w)"
  "i \<noteq> 0 \<Longrightarrow> validMonths (walkStep init n i s w) =
     (if previousStock w - s > 0 then validMonths w + 1 else validMonths w)"
  by (simp_all add: walkStep_def Let_def)

lemma walkStep_first:
  "previousStock (walkStep init n 0 s w) = init"
  "varTotalSales (walkStep init n 0 s w) = varTotalSales w"
  "validMonths (walkStep init n 0 s w) = validMonths w"
  by (simp_all add: walkStep_def)

lemma walkStep_leftOver:
  "varLeftOver (walkStep init n i s w) = varLeftOver w \<or> varLeftOver (walkStep init n i s w) = s"
  by (simp add: walkStep_def setLeftOver_def Let_def)

lemma walkOver_spec:
  "i \<noteq> 0 \<Longrightarrow>
   (varTotalSales (walkOver init n i xs w), validMonths (walkOver init n i xs w)) =
     specWalkFrom (previousStock w) xs (varTotalSales w, validMonths w)"
proof (induction xs arbitrary: i w)
  case Nil
  show ?case by simp
next
  case (Cons x xs)
  show ?case
  proof (cases x)
    case None
    with Cons show ?thesis by simp
  next
    case (Some s)
    have "(varTotalSales (walkOver init n (Suc i) xs (walkStep init n i s w)),
           validMonths (walkOver init n (Suc i) xs (walkStep init n i s w))) =
          specWalkFrom (previousStock (walkStep init n i s w)) xs
            (varTotalSales (walkStep init n i s w), validMonths (walkStep init n i s w))"
      by (rule Cons.IH) simp
    with Some Cons.prems show ?thesis by (simp add: walkStep_later)
  qed
qed

lemma finalWalk_spec:
  "(varTotalSales (finalWalk data pid), validMonths (finalWalk data pid)) =
     (case stockSeries data pid of
        [] \<Rightarrow> (0, 0)
      | None # ms \<Rightarrow> specWalkFrom 0 ms (0, 0)
      | Some s # ms \<Rightarrow> specWalkFrom (peakOver (stockSeries data pid) 0) ms (0, 0))"
proof (cases "stockSeries data pid")
  case Nil
  then show ?thesis by (simp add: finalWalk_def walk0_def)
next
  case (Cons x ms)
  show ?thesis
  proof (cases x)
    case None
    with Cons show ?thesis
      using walkOver_spec[of "Suc 0" _ _ ms walk0]
      by (simp add: finalWalk_def walk0_def)
  next
    case (Some s)
    with Cons show ?thesis
      using walkOver_spec[of "Suc 0" "peakOver (stockSeries data pid) 0" "length (stockSeries data pid)" ms
          "walkStep (peakOver (stockSeries data pid) 0) (length (stockSeries data pid)) 0 s walk0"]
      by (simp add: finalWalk_def walkStep_first walk0_def)
  qed
qed

lemma walkOver_leftOver:
  "varLeftOver (walkOver init n i xs w) = varLeftOver w \<or>
   Some (varLeftOver (walkOver init n i xs w)) \<in> set xs"
proof (induction xs arbitrary: i w)
  case Nil
  show ?case by simp
next
  case (Cons x xs)
  show ?case
  proof (cases x)
    case None
    with Cons[of "Suc i" w] show ?thesis by auto
  next
    case (Some s)
    with Cons[of "Suc i" "walkStep init n i s w"] walkStep_leftOver[of init n i s w]
    show ?thesis by auto
  qed
qed

lemma peakOver_ge: "m \<le> peakOver xs m"
proof (induction xs arbitrary: m)
  case Nil
  show ?case by simp
next
  case (Cons x xs)
  show ?case
  proof (cases x)
    case None
    with Cons show ?thesis by simp
  next
    case (Some s)
    have "(if s > m then s else m) \<le> peakOver xs (if s > m then s else m)" by (rule Cons)
    with Some show ?thesis by (simp split: if_splits)
  qed
qed

lemma peakOver_member: "Some s \<in> set xs \<Longrightarrow> s \<le> peakOver xs m"
proof (induction xs arbitrary: m)
  case Nil
  then show ?case by simp
next
  case (Cons x xs)
  show ?case
  proof (cases "x = Some s")
    case True
    have "(if s > m then s else m) \<le> peakOver xs (if s > m then s else m)" by (rule peakOver_ge)
    with True show ?thesis by (simp split: if_splits)
  next
    case False
    with Cons.prems have "Some s \<in> set xs" by simp
    from Cons.IH[OF this] show ?thesis by (cases x) simp_all
  qed
qed


lemma finalWalk_leftOver_le: "varLeftOver (finalWalk data pid) \<le> peakOver (stockSeries data pid) 0"
proof -
  let ?xs = "stockSeries data pid"
  from walkOver_leftOver[of "peakOver ?xs 0" "length ?xs" 0 ?xs walk0]
  have "varLeftOver (finalWalk data pid) = 0 \<or> Some (varLeftOver (finalWalk data pid)) \<in> set ?xs"
    by (simp add: finalWalk_def walk0_def)
  then show ?thesis
    using peakOver_ge[of 0 ?xs] peakOver_member[of "varLeftOver (finalWalk data pid)" ?xs 0] by auto
qed

section \<open>Consolidation of the rows of one order\<close>

lemma map_of_consolidateRow:
  "map_of (consolidateRow cs row) pid =
     (if productId row = pid then
        (case map_of cs pid of
           Some r \<Rightarrow> Some (r\<lparr>stockStatus := stockStatus r + stockStatus row\<rparr>)
         | None \<Rightarrow> if pid \<in> set objectPrototypeKeys then None else Some (newRecord row))
      else map_of cs pid)"
proof (cases "map_of cs (productId row)")
  case None
  then show ?thesis
    by (auto simp: consolidateRow_def js_get_def map_add_def split: option.splits)
next
  case (Some r)
  then show ?thesis
    by (auto simp: consolidateRow_def js_get_def AList.update_conv')
qed

lemma distinct_consolidateRow:
  assumes "distinct (map fst cs)"
  shows "distinct (map fst (consolidateRow cs row))"
proof (cases "map_of cs (productId row)")
  case None
  then have "productId row \<notin> fst ` set cs" by (simp add: map_of_eq_None_iff)
  with None assms show ?thesis by (simp add: consolidateRow_def js_get_def)
next
  case (Some r)
  with assms show ?thesis by (simp add: consolidateRow_def js_get_def AList.distinct_update)
qed

lemma distinct_foldl_consolidateRow:
  "distinct (map fst cs) \<Longrightarrow> distinct (map fst (foldl consolidateRow cs rs))"
  by (induction rs arbitrary: cs) (simp_all add: distinct_consolidateRow)

lemma map_of_foldl_consolidateRow:
  "map_of (foldl consolidateRow cs rs) pid =
     (case map_of cs pid of
        Some r \<Rightarrow>
          Some (r\<lparr>stockStatus := stockStatus r +
                    sum_list (map stockStatus (filter (\<lambda>x. productId x = pid) rs))\<rparr>)
      | None \<Rightarrow>
          if pid \<in> set objectPrototypeKeys then None
          else (case filter (\<lambda>x. productId x = pid) rs of
                  [] \<Rightarrow> None
                | x # xs \<Rightarrow>
                    Some ((newRecord x)\<lparr>stockStatus := stockStatus x +
                            sum_list (map stockStatus xs)\<rparr>)))"
proof (induction rs arbitrary: cs)
  case Nil
  show ?case by (simp split: option.splits)
next
  case (Cons row rs)
  show ?case
  proof (cases "productId row = pid")
    case False
    then show ?thesis
      by (simp add: Cons.IH map_of_consolidateRow split: option.splits)
  next
    case True
    show ?thesis
    proof (cases "map_of cs pid")
      case (Some r)
      with True show ?thesis
        by (simp add: Cons.IH map_of_consolidateRow add.assoc)
    next
      case None
      with True show ?thesis
        by (simp add: Cons.IH map_of_consolidateRow newRecord_def)
    qed
  qed
qed

lemma map_of_stocksOfRows:
  "map_of (stocksOfRows rs) pid =
     (if pid \<in> set objectPrototypeKeys then None
      else (case filter (\<lambda>x. productId x = pid) rs of
              [] \<Rightarrow> None
            | x # xs \<Rightarrow>
                Some ((newRecord x)\<lparr>stockStatus := stockStatus x + sum_list (map stockStatus xs)\<rparr>)))"
  by (simp add: stocksOfRows_def map_of_foldl_consolidateRow)

lemma distinct_stocksOfRows: "distinct (map fst (stocksOfRows rs))"
  by (simp add: stocksOfRows_def distinct_foldl_consolidateRow)

lemma stocksOfRows_entry:
  assumes "(k, r) \<in> set (stocksOfRows rs)"
  shows "k \<notin> set objectPrototypeKeys \<and>
     (\<exists>x xs. filter (\<lambda>x. productId x = k) rs = x # xs \<and>
        r = (newRecord x)\<lparr>stockStatus := stockStatus x + sum_list (map stockStatus xs)\<rparr>)"
proof -
  from assms have "map_of (stocksOfRows rs) k = Some r"
    using distinct_stocksOfRows by simp
  then show ?thesis
    by (auto simp: map_of_stocksOfRows split: if_splits list.splits)
qed

lemma stocksOfRows_key: "(k, r) \<in> set (stocksOfRows rs) \<Longrightarrow> productId r = k"
proof -
  assume "(k, r) \<in> set (stocksOfRows rs)"
  from stocksOfRows_entry[OF this] obtain x xs where
    f: "filter (\<lambda>x. productId x = k) rs = x # xs" and
    r: "r = (newRecord x)\<lparr>stockStatus := stockStatus x + sum_list (map stockStatus xs)\<rparr>"
    by blast
  from f have "x \<in> set (filter (\<lambda>x. productId x = k) rs)" by simp
  then have "productId x = k" by simp
  with r show ?thesis by (simp add: newRecord_def)
qed

lemma map_productId_recordsOfRows:
  "map productId (recordsOfRows rs) = js_keys (stocksOfRows rs)"
proof -
  have "\<forall>e\<in>set (js_entries (stocksOfRows rs)). productId (snd e) = fst e"
    using stocksOfRows_key by (auto simp: set_js_entries)
  then show ?thesis
    by (simp add: recordsOfRows_def js_values_def js_keys_def)
qed

lemma distinct_recordsOfRows: "distinct (map productId (recordsOfRows rs))"
  by (simp add: map_productId_recordsOfRows js_keys_def distinct_js_entries
      distinct_stocksOfRows)

lemma set_recordsOfRows: "set (recordsOfRows rs) = snd ` set (stocksOfRows rs)"
  by (simp add: recordsOfRows_def set_js_values)


subsection \<open>Rows that are not objects\<close>

lemma consolidateRows_objects:
  "consolidateRows cs (map Some rs) = Inr (foldl consolidateRow cs rs)"
  by (induction rs arbitrary: cs) simp_all

lemma consolidateRows_null:
  "None \<in> set rs \<Longrightarrow>
   consolidateRows cs rs = Inl (TypeError ''cannot read property productId of null'')"
proof (induction rs arbitrary: cs)
  case Nil
  then show ?case by simp
next
  case (Cons r rs)
  then show ?case by (cases r) auto
qed

lemma objects_or_null: "None \<in> set rs \<or> (\<exists>rows. rs = map Some rows)"
proof (cases "None \<in> set rs")
  case True
  then show ?thesis by simp
next
  case False
  then have "rs = map Some (map the rs)"
    by (induction rs) auto
  then have "\<exists>rows. rs = map Some rows" by (rule exI)
  then show ?thesis by simp
qed

lemma consolidate_objects: "consolidate (map Some rs) = Inr (recordsOfRows rs)"
  by (simp add: consolidate_def consolidateRows_objects recordsOfRows_def stocksOfRows_def)

lemma consolidate_null:
  "None \<in> set rs \<Longrightarrow> consolidate rs = Inl (TypeError ''cannot read property productId of null'')"
  by (simp add: consolidate_def consolidateRows_null)

lemma consolidate_Inr:
  assumes "consolidate rs = Inr monthData"
  shows "\<exists>rows. rs = map Some rows \<and> monthData = recordsOfRows rows"
proof -
  from objects_or_null[of rs] show ?thesis
  proof
    assume "None \<in> set rs"
    from consolidate_null[OF this] assms show ?thesis by simp
  next
    assume "\<exists>rows. rs = map Some rows"
    then obtain rows where r: "rs = map Some rows" by blast
    with assms have "monthData = recordsOfRows rows" by (simp add: consolidate_objects)
    with r show ?thesis by blast
  qed
qed

section \<open>The months of the series\<close>

lemma distinct_js_set: "distinct (map fst obj) \<Longrightarrow> distinct (map fst (js_set obj k v))"
  by (simp add: js_set_def AList.distinct_update)

lemma set_update_subset: "set (AList.update k v al) \<subseteq> insert (k, v) (set al)"
  by (induction al) auto

lemma set_js_set_subset: "set (js_set obj k v) \<subseteq> insert (k, v) (set obj)"
  using set_update_subset[of k v obj] by (auto simp: js_set_def)

lemma distinct_consolidateOrders:
  "consolidateOrders acc orders = Inr data \<Longrightarrow> distinct (map fst acc) \<Longrightarrow>
   distinct (map fst data)"
proof (induction orders arbitrary: acc)
  case Nil
  then show ?case by simp
next
  case (Cons ord orders)
  from Cons.prems(1) obtain md where md: "consolidate (orderRows ord) = Inr md"
    and rest: "consolidateOrders (js_set acc (name ord) md) orders = Inr data"
    by (cases "consolidate (orderRows ord)") simp_all
  from Cons.IH[OF rest] Cons.prems(2) show ?case by (simp add: distinct_js_set)
qed

lemma distinct_monthlyConsolidatedData:
  "monthlyConsolidatedData orders = Inr data \<Longrightarrow> distinct (map fst data)"
  using distinct_consolidateOrders[of "[]" orders data] by (simp add: monthlyConsolidatedData_def)

lemma values_consolidateOrders:
  "consolidateOrders acc orders = Inr data \<Longrightarrow> md \<in> snd ` set data \<Longrightarrow>
   md \<in> snd ` set acc \<or> (\<exists>ord\<in>set orders. consolidate (orderRows ord) = Inr md)"
proof (induction orders arbitrary: acc)
  case Nil
  then show ?case by simp
next
  case (Cons ord orders)
  from Cons.prems(1) obtain m where m: "consolidate (orderRows ord) = Inr m"
    and rest: "consolidateOrders (js_set acc (name ord) m) orders = Inr data"
    by (cases "consolidate (orderRows ord)") simp_all
  from Cons.IH[OF rest Cons.prems(2)]
  have "md \<in> snd ` set (js_set acc (name ord) m) \<or>
      (\<exists>ord\<in>set orders. consolidate (orderRows ord) = Inr md)" .
  moreover have "snd ` set (js_set acc (name ord) m) \<subseteq> insert m (snd ` set acc)"
    using set_js_set_subset[of acc "name ord" m] by auto
  ultimately show ?case using m by auto
qed

lemma values_monthlyConsolidatedData:
  "monthlyConsolidatedData orders = Inr data \<Longrightarrow> md \<in> snd ` set data \<Longrightarrow>
   \<exists>ord\<in>set orders. consolidate (orderRows ord) = Inr md"
  using values_consolidateOrders[of "[]" orders data md] by (simp add: monthlyConsolidatedData_def)



lemma consolidateOrders_null:
  "\<exists>ord\<in>set orders. None \<in> set (orderRows ord) \<Longrightarrow>
   consolidateOrders acc orders = Inl (TypeError ''cannot read property productId of null'')"
proof (induction orders arbitrary: acc)
  case Nil
  then show ?case by simp
next
  case (Cons ord orders)
  show ?case
  proof (cases "None \<in> set (orderRows ord)")
    case True
    then show ?thesis by (simp add: consolidate_null)
  next
    case False
    with Cons.prems have later: "\<exists>ord\<in>set orders. None \<in> set (orderRows ord)" by simp
    from False objects_or_null[of "orderRows ord"] obtain rs where "orderRows ord = map Some rs"
      by blast
    then have "consolidate (orderRows ord) = Inr (recordsOfRows rs)"
      by (simp add: consolidate_objects)
    with Cons.IH[OF later] show ?thesis by simp
  qed
qed

lemma consolidateOrders_objects:
  "\<forall>ord\<in>set orders. None \<notin> set (orderRows ord) \<Longrightarrow>
   \<exists>data. consolidateOrders acc orders = Inr data"
proof (induction orders arbitrary: acc)
  case Nil
  show ?case by simp
next
  case (Cons ord orders)
  from Cons.prems objects_or_null[of "orderRows ord"] obtain rs where "orderRows ord = map Some rs"
    by auto
  then have c: "consolidate (orderRows ord) = Inr (recordsOfRows rs)"
    by (simp add: consolidate_objects)
  from Cons.prems have "\<forall>ord\<in>set orders. None \<notin> set (orderRows ord)" by simp
  from Cons.IH[OF this] c show ?case by simp
qed

subsection \<open>The total stock of a month\<close>

lemma sum_list_insort_key:
  "sum_list (map f (insort_key g x xs)) = (f x :: int) + sum_list (map f xs)"
  by (induction xs) simp_all

lemma sum_list_sort_key: "sum_list (map f (sort_key g xs)) = (sum_list (map f xs) :: int)"
  by (induction xs) (simp_all add: sum_list_insort_key)

lemma sum_list_filter_split:
  "sum_list (map f (filter P xs)) + sum_list (map f (filter (\<lambda>x. \<not> P x) xs)) =
   (sum_list (map f xs) :: int)"
  by (induction xs) simp_all

lemma sum_list_js_entries:
  "sum_list (map f (js_entries obj)) = (sum_list (map f obj) :: int)"
  by (simp add: js_entries_def sum_list_sort_key sum_list_filter_split)

lemma total_update:
  "map_of cs k = Some r \<Longrightarrow>
   sum_list (map (\<lambda>e. stockStatus (snd e))
     (AList.update k (r\<lparr>stockStatus := stockStatus r + a\<rparr>) cs)) =
   sum_list (map (\<lambda>e. stockStatus (snd e)) cs) + a"
  by (induction cs) (auto split: if_splits)

lemma total_consolidateRow:
  "sum_list (map (\<lambda>e. stockStatus (snd e)) (consolidateRow cs row)) =
   sum_list (map (\<lambda>e. stockStatus (snd e)) cs) +
     (if productId row \<in> fst ` set cs \<or> productId row \<notin> set objectPrototypeKeys
      then stockStatus row else 0)"
proof (cases "map_of cs (productId row)")
  case None
  then have "productId row \<notin> fst ` set cs" by (simp add: map_of_eq_None_iff)
  with None show ?thesis by (simp add: consolidateRow_def js_get_def newRecord_def)
next
  case (Some r)
  then have "productId row \<in> fst ` set cs" by (meson domI domIff map_of_eq_None_iff)
  with Some show ?thesis by (simp add: consolidateRow_def js_get_def total_update)
qed

lemma keys_consolidateRow:
  "fst ` set (consolidateRow cs row) \<subseteq>
     fst ` set cs \<union> {k. k = productId row \<and> k \<notin> set objectPrototypeKeys}"
proof (cases "map_of cs (productId row)")
  case None
  then show ?thesis by (auto simp: consolidateRow_def js_get_def)
next
  case (Some r)
  then have "productId row \<in> fst ` set cs" by (meson domI domIff map_of_eq_None_iff)
  with Some show ?thesis by (auto simp: consolidateRow_def js_get_def AList.dom_update)
qed

lemma total_foldl_consolidateRow:
  "fst ` set cs \<inter> set objectPrototypeKeys = {} \<Longrightarrow>
   sum_list (map (\<lambda>e. stockStatus (snd e)) (foldl consolidateRow cs rs)) =
   sum_list (map (\<lambda>e. stockStatus (snd e)) cs) +
     sum_list (map stockStatus (filter (\<lambda>x. productId x \<notin> set objectPrototypeKeys) rs))"
proof (induction rs arbitrary: cs)
  case Nil
  show ?case by simp
next
  case (Cons row rs)
  from Cons.prems keys_consolidateRow[of cs row]
  have inv: "fst ` set (consolidateRow cs row) \<inter> set objectPrototypeKeys = {}" by blast
  from Cons.prems have "(productId row \<in> fst ` set cs \<or> productId row \<notin> set objectPrototypeKeys) =
      (productId row \<notin> set objectPrototypeKeys)" by blast
  then show ?case
    using Cons.IH[OF inv] by (simp add: total_consolidateRow)
qed

lemma recordsOfRows_total:
  "sum_list (map stockStatus (recordsOfRows rs)) =
   sum_list (map stockStatus (filter (\<lambda>x. productId x \<notin> set objectPrototypeKeys) rs))"
proof -
  have "sum_list (map stockStatus (recordsOfRows rs)) =
      sum_list (map (\<lambda>e. stockStatus (snd e)) (js_entries (stocksOfRows rs)))"
    by (simp add: recordsOfRows_def js_values_def comp_def)
  also have "\<dots> = sum_list (map (\<lambda>e. stockStatus (snd e)) (stocksOfRows rs))"
    by (rule sum_list_js_entries)
  also have "\<dots> = sum_list (map stockStatus
      (filter (\<lambda>x. productId x \<notin> set objectPrototypeKeys) rs))"
    using total_foldl_consolidateRow[of "[]" rs] by (simp add: stocksOfRows_def)
  finally show ?thesis .
qed

lemma consolidate_total:
  "consolidate (map Some rs) = Inr (recordsOfRows rs) \<and>
   sum_list (map stockStatus (recordsOfRows rs)) =
   sum_list (map stockStatus (filter (\<lambda>x. productId x \<notin> set objectPrototypeKeys) rs))"
  by (simp add: consolidate_objects recordsOfRows_total)

section \<open>The walk on monotone series and the returned record\<close>






lemma outputFor_fields:
  assumes "outputFor orders pid = Some p"
  shows "\<exists>data. monthlyConsolidatedData orders = Inr data \<and> productId p = pid \<and>
     stockStatus p = peakOver (stockSeries data pid) 0 \<and>
     leftOver p = varLeftOver (finalWalk data pid) \<and>
     totalSales p = varTotalSales (finalWalk data pid) \<and>
     months p = validMonths (finalWalk data pid) \<and>
     availability p = (if leftOver p > 0 then ''Available'' else ''Out of Stock'') \<and>
     average p =
       (if months p > 0 then toFixed2 (toDouble (of_int (totalSales p) / of_nat (months p)))
        else 0) \<and>
     enoughForMonths p =
       (if average p > 0 then toFixed2 (toDouble (of_int (leftOver p) / toDouble (average p)))
        else 0)"
proof (cases "monthlyConsolidatedData orders")
  case (Inl e)
  from outputFor_failed[OF this] assms show ?thesis by simp
next
  case (Inr data)
  from assms have pid: "pid \<in> set (productIds data)"
    and p: "p = projr (analyzeProduct data pid)"
    by (simp_all add: outputFor_eq[OF Inr] split: if_splits)
  from pid have "data \<noteq> []" by (auto simp: set_productIds)
  from analyzeProduct_fields[OF this, of pid] p Inr show ?thesis by auto
qed





section \<open>The leftover is 0 or the stock of the last month\<close>

lemma walkStep_leftOver_last:
  "varLeftOver (walkStep init n i s w) = varLeftOver w \<or>
   (i = n - 1 \<and> varLeftOver (walkStep init n i s w) = s)"
  by (simp add: walkStep_def setLeftOver_def Let_def)

lemma walkOver_leftOver_last:
  "i + length xs = n \<Longrightarrow>
   varLeftOver (walkOver init n i xs w) = varLeftOver w \<or>
   (xs \<noteq> [] \<and> last xs = Some (varLeftOver (walkOver init n i xs w)))"
proof (induction xs arbitrary: i w)
  case Nil
  show ?case by simp
next
  case (Cons x xs)
  from Cons.prems have n: "Suc i + length xs = n" by simp
  show ?case
  proof (cases x)
    case None
    with Cons.IH[OF n, of w] show ?thesis by auto
  next
    case (Some s)
    show ?thesis
    proof (cases "xs = []")
      case True
      with Some walkStep_leftOver_last[of init n i s w] show ?thesis by auto
    next
      case False
      with n have "i \<noteq> n - 1" by (cases xs) auto
      with walkStep_leftOver_last[of init n i s w]
      have "varLeftOver (walkStep init n i s w) = varLeftOver w" by simp
      with Cons.IH[OF n, of "walkStep init n i s w"] Some False show ?thesis by auto
    qed
  qed
qed

lemma leftOver_zero_or_last_month:
  assumes "outputFor orders pid = Some p"
  shows "\<exists>series. consolidatedSeries orders pid = Inr series \<and>
     (leftOver p = 0 \<or> (series \<noteq> [] \<and> last series = Some (leftOver p)))"
proof -
  from outputFor_fields[OF assms] obtain data where d: "monthlyConsolidatedData orders = Inr data"
    and l: "leftOver p = varLeftOver (finalWalk data pid)" by blast
  let ?xs = "stockSeries data pid"
  from walkOver_leftOver_last[of 0 ?xs "length ?xs" "peakOver ?xs 0" walk0]
  have "varLeftOver (finalWalk data pid) = 0 \<or>
     (?xs \<noteq> [] \<and> last ?xs = Some (varLeftOver (finalWalk data pid)))"
    by (simp add: finalWalk_def walk0_def)
  with d l show ?thesis by (simp add: consolidatedSeries_def)
qed

section \<open>What holds of the records of a month\<close>

text \<open>
  When the rows are objects, the product ids of the consolidated records are distinct, the
  stock of a record is the sum of the stocks of all rows with its id, and its name is the
  name of the first of these rows.  An id among the rows has its record unless it is a
  property name inherited from \<open>Object.prototype\<close>.
\<close>

lemma records_of_rows:
  "consolidate (map Some rs) = Inr (recordsOfRows rs) \<and>
   distinct (map productId (recordsOfRows rs)) \<and>
   (\<forall>r\<in>set (recordsOfRows rs).
      \<exists>x xs. filter (\<lambda>y. productId y = productId r) rs = x # xs \<and>
        stockStatus r = sum_list (map stockStatus (x # xs)) \<and>
        productName r = productName x) \<and>
   (pid \<in> productId ` set rs \<longrightarrow> pid \<notin> set objectPrototypeKeys \<longrightarrow>
      (\<exists>r\<in>set (recordsOfRows rs). productId r = pid))"
proof (intro conjI ballI impI)
  show "consolidate (map Some rs) = Inr (recordsOfRows rs)" by (rule consolidate_objects)
next
  show "distinct (map productId (recordsOfRows rs))" by (rule distinct_recordsOfRows)
next
  fix r assume "r \<in> set (recordsOfRows rs)"
  then obtain k where kr: "(k, r) \<in> set (stocksOfRows rs)"
    by (auto simp: set_recordsOfRows)
  from stocksOfRows_key[OF kr] have k: "productId r = k" .
  from stocksOfRows_entry[OF kr] obtain x xs where
    f: "filter (\<lambda>x. productId x = k) rs = x # xs" and
    r: "r = (newRecord x)\<lparr>stockStatus := stockStatus x + sum_list (map stockStatus xs)\<rparr>"
    by blast
  from r have "stockStatus r = sum_list (map stockStatus (x # xs))"
    and "productName r = productName x"
    by (simp_all add: newRecord_def)
  with f k show "\<exists>x xs. filter (\<lambda>y. productId y = productId r) rs = x # xs \<and>
        stockStatus r = sum_list (map stockStatus (x # xs)) \<and>
        productName r = productName x"
    by blast
next
  assume "pid \<in> productId ` set rs" and np: "pid \<notin> set objectPrototypeKeys"
  then have "filter (\<lambda>x. productId x = pid) rs \<noteq> []"
    by (auto simp: filter_empty_conv)
  then obtain x xs where "filter (\<lambda>x. productId x = pid) rs = x # xs"
    by (cases "filter (\<lambda>x. productId x = pid) rs") auto
  with np obtain r where m: "map_of (stocksOfRows rs) pid = Some r"
    by (simp add: map_of_stocksOfRows)
  then have mem: "(pid, r) \<in> set (stocksOfRows rs)" by (rule map_of_SomeD)
  then have "r \<in> set (recordsOfRows rs)" by (force simp: set_recordsOfRows)
  moreover from stocksOfRows_key[OF mem] have "productId r = pid" .
  ultimately show "\<exists>r\<in>set (recordsOfRows rs). productId r = pid" by blast
qed

lemma records_of_months:
  assumes "monthlyConsolidatedData orders = Inr data"
  shows "distinct (map fst data) \<and>
     (\<forall>monthData\<in>snd ` set data. distinct (map productId monthData))"
proof (intro conjI ballI)
  show "distinct (map fst data)" by (rule distinct_monthlyConsolidatedData[OF assms])
next
  fix monthData assume "monthData \<in> snd ` set data"
  from values_monthlyConsolidatedData[OF assms this] obtain ord
    where "consolidate (orderRows ord) = Inr monthData" by blast
  from consolidate_Inr[OF this] show "distinct (map productId monthData)"
    by (auto simp: distinct_recordsOfRows)
qed

section \<open>The claims\<close>

text \<open>
  Claim C1.  The leftover of a product is meant to be its consolidated stock in the last
  month of the sorted series when it is present there, and 0 when it is absent.  The
  loop assigns \<open>leftOver\<close> in line 111 only, and the \<open>continue\<close> of line 105 leaves the
  iteration before that line whenever the stock did not fall below the previous stock.
  With stocks 80, 50 and 70 the product is present in the last month with stock 70, and
  the record returned for it has \<open>leftOver = 0\<close> and is out of stock.
\<close>

theorem leftover_skipped_in_last_month:
  "consolidatedSeries
     [\<lparr>name = ''2024-01'', rows = Some [Some \<lparr>productId = ''B'', productName = ''Bolt'', stockStatus = 80\<rparr>]\<rparr>,
      \<lparr>name = ''2024-02'', rows = Some [Some \<lparr>productId = ''B'', productName = ''Bolt'', stockStatus = 50\<rparr>]\<rparr>,
      \<lparr>name = ''2024-03'', rows = Some [Some \<lparr>productId = ''B'', productName = ''Bolt'', stockStatus = 70\<rparr>]\<rparr>]
     ''B'' = Inr [Some 80, Some 50, Some 70] \<and>
   outputFor
     [\<lparr>name = ''2024-01'', rows = Some [Some \<lparr>productId = ''B'', productName = ''Bolt'', stockStatus = 80\<rparr>]\<rparr>,
      \<lparr>name = ''2024-02'', rows = Some [Some \<lparr>productId = ''B'', productName = ''Bolt'', stockStatus = 50\<rparr>]\<rparr>,
      \<lparr>name = ''2024-03'', rows = Some [Some \<lparr>productId = ''B'', productName = ''Bolt'', stockStatus = 70\<rparr>]\<rparr>]
     ''B'' =
     Some \<lparr>productId = ''B'', productName = ''Bolt'', stockStatus = 80, leftOver = 0,
            availability = ''Out of Stock'', average = 30, totalSales = 30, months = 1,
            enoughForMonths = 0\<rparr>"
  by code_simp

text \<open>
  Claim C2.  The series of three months with stock 100, 60 and 60 for product \<open>A\<close>.  The
  service reports peak 100, total sales 40, one valid month and average 40; in the third
  month the sales are 0, the iteration is left at the \<open>continue\<close>, and the record has
  \<open>leftOver = 0\<close>, availability \<open>Out of Stock\<close> and \<open>enoughForMonths = 0\<close>, not 60,
  \<open>Available\<close> and 1.5.
\<close>

theorem spec_example_three_months:
  "stockAnalyzisBulk (Inr (Some
     [\<lparr>name = ''2024-01'', rows = Some [Some \<lparr>productId = ''A'', productName = '''', stockStatus = 100\<rparr>]\<rparr>,
      \<lparr>name = ''2024-02'', rows = Some [Some \<lparr>productId = ''A'', productName = '''', stockStatus = 60\<rparr>]\<rparr>,
      \<lparr>name = ''2024-03'', rows = Some [Some \<lparr>productId = ''A'', productName = '''', stockStatus = 60\<rparr>]\<rparr>])) =
   Inr [\<lparr>productId = ''A'', productName = '''', stockStatus = 100, leftOver = 0,
          availability = ''Out of Stock'', average = 40, totalSales = 40, months = 1,
          enoughForMonths = 0\<rparr>]"
  by code_simp




text \<open>
  Claim C4, as the code has it.  For every record the service returns, the reported
  \<open>stockStatus\<close> is the peak of the series, and total sales and valid months are those of
  the walk of the specification (\<open>specWalkFrom\<close>: a present month with positive sales is
  counted, every present month becomes the previous stock, an absent month changes
  nothing), started at index 0 with the peak as previous stock when the product is
  present in the first month, and with previous stock 0 when it is absent from the first
  month (the assignment of line 93 stands inside \<open>if (product)\<close>).
\<close>

theorem sales_walk_refines_spec:
  assumes "outputFor orders pid = Some p"
  shows "\<exists>series. consolidatedSeries orders pid = Inr series \<and>
     stockStatus p = peakOver series 0 \<and>
     (totalSales p, months p) =
       (case series of
          [] \<Rightarrow> (0, 0)
        | None # ms \<Rightarrow> specWalkFrom 0 ms (0, 0)
        | Some s # ms \<Rightarrow> specSalesWalk (stockStatus p) (Some s # ms))"
proof -
  from outputFor_fields[OF assms] obtain data
    where data: "monthlyConsolidatedData orders = Inr data"
      and f: "stockStatus p = peakOver (stockSeries data pid) 0"
        "totalSales p = varTotalSales (finalWalk data pid)"
        "months p = validMonths (finalWalk data pid)"
    by blast
  from finalWalk_spec[of data pid] f
  have "stockStatus p = peakOver (stockSeries data pid) 0 \<and>
     (totalSales p, months p) =
       (case stockSeries data pid of
          [] \<Rightarrow> (0, 0)
        | None # ms \<Rightarrow> specWalkFrom 0 ms (0, 0)
        | Some s # ms \<Rightarrow> specSalesWalk (stockStatus p) (Some s # ms))"
    by (simp add: specSalesWalk_def split: list.splits option.splits)
  with data show ?thesis by (simp add: consolidatedSeries_def)
qed

text \<open>
  The theorem at the series 50, 30, 80, 20: the walk from the peak 80 counts 80 to 30 and
  80 to 20.
\<close>

theorem sales_walk_refines_spec_witness:
  "outputFor
     [\<lparr>name = ''2024-01'', rows = Some [Some \<lparr>productId = ''A'', productName = ''Widget'', stockStatus = 50\<rparr>]\<rparr>,
      \<lparr>name = ''2024-02'', rows = Some [Some \<lparr>productId = ''A'', productName = ''Widget'', stockStatus = 30\<rparr>]\<rparr>,
      \<lparr>name = ''2024-03'', rows = Some [Some \<lparr>productId = ''A'', productName = ''Widget'', stockStatus = 80\<rparr>]\<rparr>,
      \<lparr>name = ''2024-04'', rows = Some [Some \<lparr>productId = ''A'', productName = ''Widget'', stockStatus = 20\<rparr>]\<rparr>]
     ''A'' =
     Some \<lparr>productId = ''A'', productName = ''Widget'', stockStatus = 80, leftOver = 20,
            availability = ''Available'', average = 55, totalSales = 110, months = 2,
            enoughForMonths = 9 / 25\<rparr> \<and>
   (110, 2) = specSalesWalk 80 [Some 50, Some 30, Some 80, Some 20]"
proof -
  let ?orders = "[\<lparr>name = ''2024-01'', rows = Some [Some \<lparr>productId = ''A'', productName = ''Widget'', stockStatus = 50\<rparr>]\<rparr>,
      \<lparr>name = ''2024-02'', rows = Some [Some \<lparr>productId = ''A'', productName = ''Widget'', stockStatus = 30\<rparr>]\<rparr>,
      \<lparr>name = ''2024-03'', rows = Some [Some \<lparr>productId = ''A'', productName = ''Widget'', stockStatus = 80\<rparr>]\<rparr>,
      \<lparr>name = ''2024-04'', rows = Some [Some \<lparr>productId = ''A'', productName = ''Widget'', stockStatus = 20\<rparr>]\<rparr>]"
  have h: "outputFor ?orders ''A'' =
     Some \<lparr>productId = ''A'', productName = ''Widget'', stockStatus = 80, leftOver = 20,
            availability = ''Available'', average = 55, totalSales = 110, months = 2,
            enoughForMonths = 9 / 25\<rparr>"
    by code_simp
  have s: "consolidatedSeries ?orders ''A'' = Inr [Some 50, Some 30, Some 80, Some 20]"
    by code_simp
  from sales_walk_refines_spec[OF h] s h show ?thesis by simp
qed

text \<open>
  A product absent from the first month, with stock 30 and then 50: the service counts
  nothing, while a walk that starts from the peak 50 whatever the first month holds
  counts the step from 50 to 30.
\<close>

theorem sales_walk_refines_spec_counterexample:
  "consolidatedSeries
     [\<lparr>name = ''2024-01'', rows = Some [Some \<lparr>productId = ''B'', productName = ''Bolt'', stockStatus = 1\<rparr>]\<rparr>,
      \<lparr>name = ''2024-02'', rows = Some [Some \<lparr>productId = ''A'', productName = ''Widget'', stockStatus = 30\<rparr>]\<rparr>,
      \<lparr>name = ''2024-03'', rows = Some [Some \<lparr>productId = ''A'', productName = ''Widget'', stockStatus = 50\<rparr>]\<rparr>]
     ''A'' = Inr [None, Some 30, Some 50] \<and>
   outputFor
     [\<lparr>name = ''2024-01'', rows = Some [Some \<lparr>productId = ''B'', productName = ''Bolt'', stockStatus = 1\<rparr>]\<rparr>,
      \<lparr>name = ''2024-02'', rows = Some [Some \<lparr>productId = ''A'', productName = ''Widget'', stockStatus = 30\<rparr>]\<rparr>,
      \<lparr>name = ''2024-03'', rows = Some [Some \<lparr>productId = ''A'', productName = ''Widget'', stockStatus = 50\<rparr>]\<rparr>]
     ''A'' =
     Some \<lparr>productId = ''A'', productName = '''', stockStatus = 50, leftOver = 0,
            availability = ''Out of Stock'', average = 0, totalSales = 0, months = 0,
            enoughForMonths = 0\<rparr> \<and>
   specSalesWalk 50 [None, Some 30, Some 50] = (20, 1)"
  by code_simp



text \<open>
  Claim C6.  Duplicate rows of one product within an order are meant to be summed into
  one record, so two rows with stocks 10 and 15 give one record with stock 25.  The test
  of line 34 also succeeds for a product id that is a property name inherited from
  \<open>Object.prototype\<close>: two rows \<open>constructor\<close> with stocks 10 and 15 are both added to the
  inherited value, no record is created, and the service returns nothing for the
  product.  Two rows \<open>A\<close> with the same stocks give the record with stock 25 and the name
  of the first row.
\<close>

theorem duplicate_rows_of_inherited_key_not_summed:
  "consolidate
     [Some \<lparr>productId = ''constructor'', productName = ''Crane'', stockStatus = 10\<rparr>,
      Some \<lparr>productId = ''constructor'', productName = ''Crane'', stockStatus = 15\<rparr>] = Inr [] \<and>
   outputFor
     [\<lparr>name = ''2024-01'',
       rows = Some [Some \<lparr>productId = ''constructor'', productName = ''Crane'', stockStatus = 10\<rparr>,
                    Some \<lparr>productId = ''constructor'', productName = ''Crane'', stockStatus = 15\<rparr>]\<rparr>]
     ''constructor'' = None \<and>
   consolidate
     [Some \<lparr>productId = ''A'', productName = ''Widget'', stockStatus = 10\<rparr>,
      Some \<lparr>productId = ''A'', productName = ''Gadget'', stockStatus = 15\<rparr>] =
     Inr [\<lparr>productId = ''A'', productName = ''Widget'', stockStatus = 25, leftOver = 0,
            availability = ''Unknown'', average = 0, totalSales = 0, months = 0,
            enoughForMonths = 0\<rparr>]"
  by code_simp

text \<open>
  Claim C7.  When the query yields \<open>null\<close> or an empty list of orders, the service
  returns the empty list; it does not throw, and the early return of line 21 comes
  before the consolidation and the analysis.
\<close>

theorem empty_or_null_returns_empty:
  "stockAnalyzisBulk (Inr None) = Inr [] \<and> stockAnalyzisBulk (Inr (Some [])) = Inr []"
  by (simp add: stockAnalyzisBulk_def tryBlock_def)

text \<open>
  Claim C8.  Whatever fails, the caller gets the one error
  \<open>Error "Error While searching data"\<close> and no list.  A rejected query gives it.  When
  some order holds a row that is \<open>null\<close> or \<open>undefined\<close>, line 33 throws a \<open>TypeError\<close>
  inside the \<open>try\<close> block, wherever the row stands and however many months were
  consolidated before it; the service gives the same error, not the \<open>TypeError\<close> and not
  the records of the earlier months.  When every row is an object nothing throws, and
  the service returns a list with exactly one record for every product id of the
  consolidated months.  Every error the service gives is that one error.
\<close>

theorem failures_become_generic_error:
  "stockAnalyzisBulk (Inl e) = Inl (Error ''Error While searching data'') \<and>
   ((\<exists>ord\<in>set orders. None \<in> set (orderRows ord)) \<longrightarrow>
      tryBlock (Inr (Some orders)) =
        Inl (TypeError ''cannot read property productId of null'') \<and>
      stockAnalyzisBulk (Inr (Some orders)) = Inl (Error ''Error While searching data'')) \<and>
   ((\<forall>ord\<in>set orders. None \<notin> set (orderRows ord)) \<longrightarrow>
      (\<exists>data out. monthlyConsolidatedData orders = Inr data \<and>
         stockAnalyzisBulk (Inr (Some orders)) = Inr out \<and>
         map productId out = productIds data)) \<and>
   (tryBlock fetched = Inl e' \<longrightarrow>
      stockAnalyzisBulk fetched = Inl (Error ''Error While searching data'')) \<and>
   (stockAnalyzisBulk fetched = Inl err \<longrightarrow> err = Error ''Error While searching data'')"
proof (intro conjI impI)
  show "stockAnalyzisBulk (Inl e) = Inl (Error ''Error While searching data'')"
    by (simp add: stockAnalyzisBulk_def tryBlock_def)
next
  assume "\<exists>ord\<in>set orders. None \<in> set (orderRows ord)"
  from consolidateOrders_null[OF this, of "[]"]
  have "monthlyConsolidatedData orders =
      Inl (TypeError ''cannot read property productId of null'')"
    by (simp add: monthlyConsolidatedData_def)
  then show "tryBlock (Inr (Some orders)) =
      Inl (TypeError ''cannot read property productId of null'')"
    by (rule tryBlock_failed)
  then show "stockAnalyzisBulk (Inr (Some orders)) = Inl (Error ''Error While searching data'')"
    by (simp add: stockAnalyzisBulk_def)
next
  assume "\<forall>ord\<in>set orders. None \<notin> set (orderRows ord)"
  from consolidateOrders_objects[OF this, of "[]"] obtain data
    where data: "monthlyConsolidatedData orders = Inr data"
    by (auto simp: monthlyConsolidatedData_def)
  have "\<forall>x\<in>set (productIds data). productId (projr (analyzeProduct data x)) = x"
  proof
    fix x assume "x \<in> set (productIds data)"
    then have "data \<noteq> []" by (auto simp: set_productIds)
    from analyzeProduct_fields[OF this, of x] show "productId (projr (analyzeProduct data x)) = x"
      by auto
  qed
  then have "map productId (map (\<lambda>pid. projr (analyzeProduct data pid)) (productIds data)) =
      productIds data"
    by (simp add: map_idI)
  with data show "\<exists>data out. monthlyConsolidatedData orders = Inr data \<and>
      stockAnalyzisBulk (Inr (Some orders)) = Inr out \<and> map productId out = productIds data"
    by (simp add: stockAnalyzisBulk_orders[OF data])
next
  assume "tryBlock fetched = Inl e'"
  then show "stockAnalyzisBulk fetched = Inl (Error ''Error While searching data'')"
    by (simp add: stockAnalyzisBulk_def)
next
  assume "stockAnalyzisBulk fetched = Inl err"
  then show "err = Error ''Error While searching data''"
    by (cases "tryBlock fetched") (simp_all add: stockAnalyzisBulk_def)
qed

text \<open>
  The theorem at a rejected query and at two orders of which the second holds a \<open>null\<close>
  after a row of product \<open>A\<close>.
\<close>

theorem failures_become_generic_error_witness:
  "stockAnalyzisBulk (Inl (TypeError ''connection lost'')) =
     Inl (Error ''Error While searching data'') \<and>
   tryBlock (Inr (Some
     [\<lparr>name = ''2024-01'', rows = Some [Some \<lparr>productId = ''A'', productName = ''Widget'', stockStatus = 50\<rparr>]\<rparr>,
      \<lparr>name = ''2024-02'', rows = Some [Some \<lparr>productId = ''A'', productName = ''Widget'', stockStatus = 30\<rparr>, None]\<rparr>])) =
     Inl (TypeError ''cannot read property productId of null'') \<and>
   stockAnalyzisBulk (Inr (Some
     [\<lparr>name = ''2024-01'', rows = Some [Some \<lparr>productId = ''A'', productName = ''Widget'', stockStatus = 50\<rparr>]\<rparr>,
      \<lparr>name = ''2024-02'', rows = Some [Some \<lparr>productId = ''A'', productName = ''Widget'', stockStatus = 30\<rparr>, None]\<rparr>])) =
     Inl (Error ''Error While searching data'')"
proof -
  let ?orders = "[\<lparr>name = ''2024-01'', rows = Some [Some \<lparr>productId = ''A'', productName = ''Widget'', stockStatus = 50\<rparr>]\<rparr>,
      \<lparr>name = ''2024-02'', rows = Some [Some \<lparr>productId = ''A'', productName = ''Widget'', stockStatus = 30\<rparr>, None]\<rparr>]"
  have h: "\<exists>ord\<in>set ?orders. None \<in> set (orderRows ord)"
    by (simp add: orderRows_def)
  from failures_become_generic_error[of "TypeError ''connection lost''" ?orders
      "Inl (TypeError ''connection lost'')" "TypeError ''connection lost''"
      "Error ''Error While searching data''"] h
  show ?thesis by blast
qed

text \<open>
  Claim C9.  Consolidation is meant to keep the total stock of a month.  A row whose
  product id is a property name inherited from \<open>Object.prototype\<close> passes the test of
  line 34 without a record of its own, so its stock is added to the inherited value and
  is lost: one row \<open>constructor\<close> with stock 5 consolidates to no record at all, the total
  drops from 5 to 0, and the service returns no record for the product.  For all other
  rows the total is kept (\<open>consolidate_total\<close>).
\<close>

theorem inherited_key_rows_are_lost:
  "consolidate [Some \<lparr>productId = ''constructor'', productName = ''Crane'', stockStatus = 5\<rparr>] =
     Inr [] \<and>
   sum_list (map stockStatus (projr
     (consolidate
        [Some \<lparr>productId = ''constructor'', productName = ''Crane'', stockStatus = 5\<rparr>]))) = 0 \<and>
   sum_list (map stockStatus
     [\<lparr>productId = ''constructor'', productName = ''Crane'', stockStatus = 5\<rparr>]) = 5 \<and>
   stockAnalyzisBulk (Inr (Some
     [\<lparr>name = ''2024-01'',
       rows = Some [Some \<lparr>productId = ''constructor'', productName = ''Crane'', stockStatus = 5\<rparr>]\<rparr>])) =
     Inr []"
  by code_simp

text \<open>
  Claim C10.  In every record the service returns, \<open>leftOver\<close> is at most \<open>stockStatus\<close>,
  the reported peak: the leftover is 0 or the stock of some month, and the peak starts
  at 0 and is raised to the stock of every month.
\<close>

theorem leftOver_le_stockStatus:
  "stockAnalyzisBulk fetched = Inr finalStockStatus \<Longrightarrow> r \<in> set finalStockStatus \<Longrightarrow>
   leftOver r \<le> stockStatus r"
proof -
  assume res: "stockAnalyzisBulk fetched = Inr finalStockStatus" and r: "r \<in> set finalStockStatus"
  from res obtain fo where fo: "fetched = Inr fo"
    by (cases fetched) (simp_all add: stockAnalyzisBulk_def tryBlock_def)
  show ?thesis
  proof (cases fo)
    case None
    with res fo r show ?thesis by (simp add: stockAnalyzisBulk_def tryBlock_def)
  next
    case (Some orders)
    show ?thesis
    proof (cases "monthlyConsolidatedData orders")
      case (Inl e)
      from stockAnalyzisBulk_failed[OF this] res fo Some show ?thesis by simp
    next
      case (Inr data)
      from res fo Some r obtain pid where pid: "pid \<in> set (productIds data)"
        and rp: "r = projr (analyzeProduct data pid)"
        by (auto simp: stockAnalyzisBulk_orders[OF Inr])
      from pid have "data \<noteq> []" by (auto simp: set_productIds)
      from analyzeProduct_fields[OF this, of pid] rp
      have "stockStatus r = peakOver (stockSeries data pid) 0"
        and "leftOver r = varLeftOver (finalWalk data pid)" by auto
      then show ?thesis by (simp add: finalWalk_leftOver_le)
    qed
  qed
qed

text \<open>
  The theorem at a product with stock 50 and then 30.
\<close>

theorem leftOver_le_stockStatus_witness:
  "stockAnalyzisBulk (Inr (Some
     [\<lparr>name = ''2024-01'', rows = Some [Some \<lparr>productId = ''A'', productName = ''Widget'', stockStatus = 50\<rparr>]\<rparr>,
      \<lparr>name = ''2024-02'', rows = Some [Some \<lparr>productId = ''A'', productName = ''Widget'', stockStatus = 30\<rparr>]\<rparr>])) =
     Inr [\<lparr>productId = ''A'', productName = ''Widget'', stockStatus = 50, leftOver = 30,
           availability = ''Available'', average = 20, totalSales = 20, months = 1,
           enoughForMonths = 3 / 2\<rparr>] \<and>
   leftOver \<lparr>productId = ''A'', productName = ''Widget'', stockStatus = 50, leftOver = 30,
           availability = ''Available'', average = 20, totalSales = 20, months = 1,
           enoughForMonths = 3 / 2\<rparr> \<le> (50::int)"
proof -
  have h: "stockAnalyzisBulk (Inr (Some
     [\<lparr>name = ''2024-01'', rows = Some [Some \<lparr>productId = ''A'', productName = ''Widget'', stockStatus = 50\<rparr>]\<rparr>,
      \<lparr>name = ''2024-02'', rows = Some [Some \<lparr>productId = ''A'', productName = ''Widget'', stockStatus = 30\<rparr>]\<rparr>])) =
     Inr [\<lparr>productId = ''A'', productName = ''Widget'', stockStatus = 50, leftOver = 30,
           availability = ''Available'', average = 20, totalSales = 20, months = 1,
           enoughForMonths = 3 / 2\<rparr>]"
    by code_simp
  from leftOver_le_stockStatus[OF h] h show ?thesis by simp
qed

end
